theory Spec2Isabelle
  imports Complex_Main
begin

section \<open>JavaScript numbers used as indices\<close>

text \<open>
  The carousels keep their index in a JavaScript number. The indices that occur are small
  integers, far inside the range where double arithmetic is exact, so an integer-valued
  number is an \<open>int\<close>. The one non-integer value the code can produce is \<open>NaN\<close>
  (\<open>parseInt\<close> of a missing attribute, \<open>x % 0\<close>), kept as a value of its own.
\<close>

datatype jsnum = Num int | NaN

fun js_add :: "jsnum \<Rightarrow> jsnum \<Rightarrow> jsnum" where
  "js_add (Num a) (Num b) = Num (a + b)"
| "js_add _ _ = NaN"

fun js_sub :: "jsnum \<Rightarrow> jsnum \<Rightarrow> jsnum" where
  "js_sub (Num a) (Num b) = Num (a - b)"
| "js_sub _ _ = NaN"

text \<open>
  The operator \<open>%\<close>: the remainder of the truncating division, which has the sign of the
  dividend; \<open>x % 0\<close> is \<open>NaN\<close>.
\<close>

fun js_rem :: "jsnum \<Rightarrow> jsnum \<Rightarrow> jsnum" where
  "js_rem (Num a) (Num b) =
     (if b = 0 then NaN else Num (sgn a * (\<bar>a\<bar> mod \<bar>b\<bar>)))"
| "js_rem _ _ = NaN"

text \<open>Comparisons with \<open>NaN\<close> are false, also \<open>===\<close>.\<close>

fun js_lt :: "jsnum \<Rightarrow> jsnum \<Rightarrow> bool" where
  "js_lt (Num a) (Num b) = (a < b)"
| "js_lt _ _ = False"

fun js_ge :: "jsnum \<Rightarrow> jsnum \<Rightarrow> bool" where
  "js_ge (Num a) (Num b) = (a \<ge> b)"
| "js_ge _ _ = False"

fun js_gt :: "jsnum \<Rightarrow> jsnum \<Rightarrow> bool" where
  "js_gt (Num a) (Num b) = (a > b)"
| "js_gt _ _ = False"

fun js_strict_eq :: "jsnum \<Rightarrow> jsnum \<Rightarrow> bool" where
  "js_strict_eq (Num a) (Num b) = (a = b)"
| "js_strict_eq _ _ = False"

text \<open>The state space of a carousel over \<open>N\<close> slides: the integer indices in \<open>[0, N)\<close>.\<close>

fun in_range :: "int \<Rightarrow> jsnum \<Rightarrow> bool" where
  "in_range N (Num i) = (0 \<le> i \<and> i < N)"
| "in_range N NaN = False"

section \<open>Event wiring\<close>

text \<open>
  \<open>addEventListener\<close> and \<open>setTimeout\<close> calls made while a controller initialises are
  collected in a registration: the listeners in the order they are bound, and the delayed
  callbacks with their delay in milliseconds.
\<close>

datatype target =
    NavDot nat | PrevArrow | NextArrow | Document | Window
  | AboutNextBtn | AboutPrevBtn | AboutTrack

datatype handler =
    DotShowSlide nat | ShowPrevSlide | ShowNextSlide | KeyNavigation
  | ShowNextCard | ShowPrevCard | DebouncedUpdateCarousel nat | UpdateCarousel
  | OnTouchStart | OnTouchMove | OnTouchEnd

record registration =
  listeners :: "(target \<times> string \<times> handler) list"
  timeouts :: "(nat \<times> handler) list"

definition no_registration :: registration where
  "no_registration = \<lparr>listeners = [], timeouts = []\<rparr>"

section \<open>ProjectCarousel (script.js)\<close>

record slide =
  slide_active :: bool
  slide_opacity :: string

record dot =
  data_slide :: jsnum
  dot_active :: bool

text \<open>
  \<open>data_slide\<close> is \<open>parseInt(dot.getAttribute('data-slide'))\<close>. \<open>pendingShow\<close> holds the
  callbacks \<open>showSlide\<close> has scheduled with \<open>setTimeout(..., 150)\<close>: the delay and the index
  of the slide to fade in.
\<close>

record ProjectCarousel =
  navDots :: "dot list"
  projectSlides :: "slide list"
  prevArrow :: bool
  nextArrow :: bool
  currentSlide :: jsnum
  totalSlides :: int
  pendingShow :: "(nat \<times> nat) list"

definition ProjectCarousel_init :: "ProjectCarousel \<Rightarrow> registration" where
  "ProjectCarousel_init c =
     (if totalSlides c = 0 then no_registration
      else \<lparr>listeners =
               map (\<lambda>k. (NavDot k, ''click'', DotShowSlide k)) [0 ..< length (navDots c)]
               @ (if prevArrow c then [(PrevArrow, ''click'', ShowPrevSlide)] else [])
               @ (if nextArrow c then [(NextArrow, ''click'', ShowNextSlide)] else [])
               @ [(Document, ''keydown'', KeyNavigation)],
             timeouts = []\<rparr>)"

text \<open>The constructor reads the page, sets the index to 0 and calls \<open>init\<close>.\<close>

definition ProjectCarousel_new ::
  "dot list \<Rightarrow> slide list \<Rightarrow> bool \<Rightarrow> bool \<Rightarrow> ProjectCarousel \<times> registration" where
  "ProjectCarousel_new dots slides prv nxt =
     (let c = \<lparr>navDots = dots, projectSlides = slides, prevArrow = prv, nextArrow = nxt,
                currentSlide = Num 0, totalSlides = int (length slides), pendingShow = []\<rparr>
      in (c, ProjectCarousel_init c))"

text \<open>The bounds check at the head of \<open>showSlide\<close>.\<close>

definition bound_index :: "int \<Rightarrow> jsnum \<Rightarrow> jsnum" where
  "bound_index n index =
     (if js_lt index (Num 0) then Num (n - 1)
      else if js_ge index (Num n) then Num 0
      else index)"

text \<open>\<open>this.projectSlides[index]\<close> is truthy exactly for an index of an existing slide.\<close>

fun slide_at :: "slide list \<Rightarrow> jsnum \<Rightarrow> nat option" where
  "slide_at slides (Num i) = (if 0 \<le> i \<and> i < int (length slides) then Some (nat i) else None)"
| "slide_at slides NaN = None"

definition showSlide :: "jsnum \<Rightarrow> ProjectCarousel \<Rightarrow> ProjectCarousel" where
  "showSlide index0 c =
     (let index = bound_index (totalSlides c) index0 in
      c\<lparr>currentSlide := index,
        projectSlides := map (\<lambda>s. s\<lparr>slide_active := False, slide_opacity := ''0''\<rparr>)
                           (projectSlides c),
        pendingShow := pendingShow c @
           (case slide_at (projectSlides c) index of Some k \<Rightarrow> [(150, k)] | None \<Rightarrow> []),
        navDots := map (\<lambda>d. d\<lparr>dot_active := js_strict_eq (data_slide d) index\<rparr>)
                      (navDots c)\<rparr>)"

definition showNextSlide :: "ProjectCarousel \<Rightarrow> ProjectCarousel" where
  "showNextSlide c = showSlide (js_add (currentSlide c) (Num 1)) c"

definition showPrevSlide :: "ProjectCarousel \<Rightarrow> ProjectCarousel" where
  "showPrevSlide c = showSlide (js_sub (currentSlide c) (Num 1)) c"

section \<open>AboutCarousel (script.js)\<close>

record card =
  card_active :: bool
  offsetWidth :: int

text \<open>
  The track with the width of its parent element and the horizontal offset last written to
  \<open>style.transform\<close>: nothing yet, \<open>translateX(NaNpx)\<close>, or a number of pixels. The
  offset halves two integer widths, so it is a rational.
\<close>

datatype translateX = Unset | NaNpx | Px rat

record track =
  containerWidth :: int
  transform :: translateX

record AboutCarousel =
  aboutCards :: "card list"
  aboutTrack :: "track option"
  aboutPrevBtn :: bool
  aboutNextBtn :: bool
  currentAboutIndex :: jsnum
  totalAboutCards :: int

definition initTouchSupport :: "AboutCarousel \<Rightarrow> (target \<times> string \<times> handler) list" where
  "initTouchSupport c =
     (case aboutTrack c of
        None \<Rightarrow> []
      | Some _ \<Rightarrow> [(AboutTrack, ''touchstart'', OnTouchStart),
                   (AboutTrack, ''touchmove'', OnTouchMove),
                   (AboutTrack, ''touchend'', OnTouchEnd)])"

definition AboutCarousel_init :: "AboutCarousel \<Rightarrow> registration" where
  "AboutCarousel_init c =
     (if totalAboutCards c = 0 then no_registration
      else \<lparr>listeners =
               (if aboutNextBtn c then [(AboutNextBtn, ''click'', ShowNextCard)] else [])
               @ (if aboutPrevBtn c then [(AboutPrevBtn, ''click'', ShowPrevCard)] else [])
               @ [(Window, ''resize'', DebouncedUpdateCarousel 250)]
               @ initTouchSupport c,
             timeouts = [(100, UpdateCarousel)]\<rparr>)"

definition AboutCarousel_new ::
  "card list \<Rightarrow> track option \<Rightarrow> bool \<Rightarrow> bool \<Rightarrow> AboutCarousel \<times> registration" where
  "AboutCarousel_new cards trk prv nxt =
     (let c = \<lparr>aboutCards = cards, aboutTrack = trk, aboutPrevBtn = prv, aboutNextBtn = nxt,
                currentAboutIndex = Num 1, totalAboutCards = int (length cards)\<rparr>
      in (c, AboutCarousel_init c))"

text \<open>The \<open>forEach\<close> over the cards, with the position of each card.\<close>

fun mark_cards :: "jsnum \<Rightarrow> nat \<Rightarrow> card list \<Rightarrow> card list" where
  "mark_cards cur k [] = []"
| "mark_cards cur k (cd # cds) =
     cd\<lparr>card_active := js_strict_eq (Num (int k)) cur\<rparr> # mark_cards cur (Suc k) cds"

definition center_offset :: "int \<Rightarrow> int \<Rightarrow> jsnum \<Rightarrow> translateX" where
  "center_offset cardWidth container cur =
     (let gap = 48;
          totalCardWidth = cardWidth + gap;
          startPosition = of_int container / 2 - of_int cardWidth / 2
      in case cur of
           Num i \<Rightarrow> Px (startPosition - of_int i * of_int totalCardWidth)
         | NaN \<Rightarrow> NaNpx)"

definition updateCarousel :: "AboutCarousel \<Rightarrow> AboutCarousel" where
  "updateCarousel c =
     c\<lparr>aboutCards := mark_cards (currentAboutIndex c) 0 (aboutCards c),
       aboutTrack :=
         (case (aboutCards c, aboutTrack c) of
            (cd # _, Some t) \<Rightarrow>
              Some (t\<lparr>transform :=
                       center_offset (offsetWidth cd) (containerWidth t) (currentAboutIndex c)\<rparr>)
          | _ \<Rightarrow> aboutTrack c)\<rparr>"

definition showNextCard :: "AboutCarousel \<Rightarrow> AboutCarousel" where
  "showNextCard c =
     updateCarousel
       (c\<lparr>currentAboutIndex :=
            js_rem (js_add (currentAboutIndex c) (Num 1)) (Num (totalAboutCards c))\<rparr>)"

definition showPrevCard :: "AboutCarousel \<Rightarrow> AboutCarousel" where
  "showPrevCard c =
     updateCarousel
       (c\<lparr>currentAboutIndex :=
            js_rem (js_add (js_sub (currentAboutIndex c) (Num 1)) (Num (totalAboutCards c)))
                   (Num (totalAboutCards c))\<rparr>)"

section \<open>Index arithmetic of the two carousels\<close>

lemma showSlide_total [simp]: "totalSlides (showSlide i c) = totalSlides c"
  by (simp add: showSlide_def Let_def)

lemma showSlide_current [simp]:
  "currentSlide (showSlide i c) = bound_index (totalSlides c) i"
  by (simp add: showSlide_def Let_def)

lemma updateCarousel_index [simp]:
  "currentAboutIndex (updateCarousel c) = currentAboutIndex c"
  by (simp add: updateCarousel_def)

lemma updateCarousel_total [simp]:
  "totalAboutCards (updateCarousel c) = totalAboutCards c"
  by (simp add: updateCarousel_def)

lemma wrap_up: "0 \<le> i \<Longrightarrow> i < (n::int) \<Longrightarrow> (i + 1) mod n = (if n \<le> i + 1 then 0 else i + 1)"
proof (cases "n \<le> i + 1")
  case True
  assume "0 \<le> i" "i < n"
  with True have "i + 1 = n" by simp
  then show ?thesis by simp
next
  case False
  assume "0 \<le> i" "i < n"
  with False show ?thesis by simp
qed

lemma wrap_down: "0 \<le> i \<Longrightarrow> i < (n::int) \<Longrightarrow> (i - 1) mod n = (if i - 1 < 0 then n - 1 else i - 1)"
proof (cases "i = 0")
  case True
  assume "i < n"
  with True have "(- 1) mod n = n - 1" by (simp add: zmod_minus1)
  with True show ?thesis by simp
next
  case False
  assume "0 \<le> i" "i < n"
  with False show ?thesis by simp
qed

lemma next_slide_index:
  assumes "currentSlide c = Num i" and "0 \<le> i" and "i < totalSlides c"
  shows "currentSlide (showNextSlide c) = Num ((i + 1) mod totalSlides c)"
  using assms by (simp add: showNextSlide_def bound_index_def wrap_up)

lemma prev_slide_index:
  assumes "currentSlide c = Num i" and "0 \<le> i" and "i < totalSlides c"
  shows "currentSlide (showPrevSlide c) = Num ((i - 1) mod totalSlides c)"
  using assms by (simp add: showPrevSlide_def bound_index_def wrap_down)

lemma js_rem_nonneg: "0 \<le> a \<Longrightarrow> 0 < b \<Longrightarrow> js_rem (Num a) (Num b) = Num (a mod b)"
  by (simp add: sgn_if)

lemma next_card_index:
  assumes "currentAboutIndex c = Num i" and "0 \<le> i" and "i < totalAboutCards c"
  shows "currentAboutIndex (showNextCard c) = Num ((i + 1) mod totalAboutCards c)"
  using assms by (simp add: showNextCard_def js_rem_nonneg)

lemma prev_card_index:
  assumes "currentAboutIndex c = Num i" and "0 \<le> i" and "i < totalAboutCards c"
  shows "currentAboutIndex (showPrevCard c) = Num ((i - 1) mod totalAboutCards c)"
proof -
  have "js_rem (Num (i - 1 + totalAboutCards c)) (Num (totalAboutCards c))
        = Num ((i - 1 + totalAboutCards c) mod totalAboutCards c)"
    using assms by (intro js_rem_nonneg) simp_all
  then show ?thesis
    using assms by (simp add: showPrevCard_def)
qed

lemma showNextSlide_total [simp]: "totalSlides (showNextSlide c) = totalSlides c"
  by (simp add: showNextSlide_def)

lemma showNextCard_total [simp]: "totalAboutCards (showNextCard c) = totalAboutCards c"
  by (simp add: showNextCard_def)

lemma next_slide_funpow:
  assumes "currentSlide c = Num i" and "0 \<le> i" and "i < totalSlides c"
  shows "totalSlides ((showNextSlide ^^ k) c) = totalSlides c
         \<and> currentSlide ((showNextSlide ^^ k) c) = Num ((i + int k) mod totalSlides c)"
proof (induction k)
  case 0
  from assms show ?case by simp
next
  case (Suc k)
  let ?d = "(showNextSlide ^^ k) c"
  let ?j = "(i + int k) mod totalSlides c"
  from assms have pos: "0 < totalSlides c" by simp
  from Suc have tot: "totalSlides ?d = totalSlides c" and cur: "currentSlide ?d = Num ?j"
    by simp_all
  have "0 \<le> ?j" and "?j < totalSlides ?d"
    using pos tot by simp_all
  with cur have "currentSlide (showNextSlide ?d) = Num ((?j + 1) mod totalSlides ?d)"
    by (rule next_slide_index)
  also have "(?j + 1) mod totalSlides ?d = (i + int k + 1) mod totalSlides c"
    unfolding tot by (rule mod_add_left_eq)
  also have "i + int k + 1 = i + int (Suc k)"
    by simp
  finally show ?case by (simp add: tot)
qed

lemma next_card_funpow:
  assumes "currentAboutIndex c = Num i" and "0 \<le> i" and "i < totalAboutCards c"
  shows "totalAboutCards ((showNextCard ^^ k) c) = totalAboutCards c
         \<and> currentAboutIndex ((showNextCard ^^ k) c) = Num ((i + int k) mod totalAboutCards c)"
proof (induction k)
  case 0
  from assms show ?case by simp
next
  case (Suc k)
  let ?d = "(showNextCard ^^ k) c"
  let ?j = "(i + int k) mod totalAboutCards c"
  from assms have pos: "0 < totalAboutCards c" by simp
  from Suc have tot: "totalAboutCards ?d = totalAboutCards c"
    and cur: "currentAboutIndex ?d = Num ?j"
    by simp_all
  have "0 \<le> ?j" and "?j < totalAboutCards ?d"
    using pos tot by simp_all
  with cur have "currentAboutIndex (showNextCard ?d) = Num ((?j + 1) mod totalAboutCards ?d)"
    by (rule next_card_index)
  also have "(?j + 1) mod totalAboutCards ?d = (i + int k + 1) mod totalAboutCards c"
    unfolding tot by (rule mod_add_left_eq)
  also have "i + int k + 1 = i + int (Suc k)"
    by simp
  finally show ?case by (simp add: tot)
qed

lemma showPrevSlide_total [simp]: "totalSlides (showPrevSlide c) = totalSlides c"
  by (simp add: showPrevSlide_def)

lemma showPrevCard_total [simp]: "totalAboutCards (showPrevCard c) = totalAboutCards c"
  by (simp add: showPrevCard_def)

lemma mod_step_back: "0 \<le> i \<Longrightarrow> i < (n::int) \<Longrightarrow> ((i + 1) mod n - 1) mod n = i"
  by (simp add: mod_diff_left_eq)

lemma mod_step_forth: "0 \<le> i \<Longrightarrow> i < (n::int) \<Longrightarrow> ((i - 1) mod n + 1) mod n = i"
  by (simp add: mod_add_left_eq)

text \<open>
  C1. On a carousel with \<open>N \<ge> 1\<close> slides whose index \<open>i\<close> lies in \<open>[0, N)\<close>, \<open>N\<close>
  applications of the next transition lead back to \<open>i\<close>, and so do next followed by prev
  and prev followed by next. This holds for ProjectCarousel (\<open>showNextSlide\<close>,
  \<open>showPrevSlide\<close>) and for AboutCarousel (\<open>showNextCard\<close>, \<open>showPrevCard\<close>).
\<close>

theorem carousel_next_cyclic_prev_inverse:
  assumes "1 \<le> N" and "0 \<le> i" and "i < N"
    and "totalSlides p = N" and "currentSlide p = Num i"
    and "totalAboutCards a = N" and "currentAboutIndex a = Num i"
  shows "currentSlide ((showNextSlide ^^ nat N) p) = Num i
       \<and> currentSlide (showPrevSlide (showNextSlide p)) = Num i
       \<and> currentSlide (showNextSlide (showPrevSlide p)) = Num i
       \<and> currentAboutIndex ((showNextCard ^^ nat N) a) = Num i
       \<and> currentAboutIndex (showPrevCard (showNextCard a)) = Num i
       \<and> currentAboutIndex (showNextCard (showPrevCard a)) = Num i"
proof (intro conjI)
  have ip: "0 \<le> i" "i < totalSlides p" and ia: "0 \<le> i" "i < totalAboutCards a"
    using assms by simp_all
  have posN: "0 < N" using assms(1) by simp
  have "currentSlide ((showNextSlide ^^ nat N) p) = Num ((i + int (nat N)) mod totalSlides p)"
    using next_slide_funpow [OF assms(5) ip] by simp
  then show "currentSlide ((showNextSlide ^^ nat N) p) = Num i"
    using assms by simp
  have "currentAboutIndex ((showNextCard ^^ nat N) a)
        = Num ((i + int (nat N)) mod totalAboutCards a)"
    using next_card_funpow [OF assms(7) ia] by simp
  then show "currentAboutIndex ((showNextCard ^^ nat N) a) = Num i"
    using assms by simp
  have n1: "currentSlide (showNextSlide p) = Num ((i + 1) mod N)"
    using next_slide_index [OF assms(5) ip] assms(4) by simp
  have "currentSlide (showPrevSlide (showNextSlide p)) = Num (((i + 1) mod N - 1) mod N)"
    using prev_slide_index [OF n1] posN assms(4) by simp
  then show "currentSlide (showPrevSlide (showNextSlide p)) = Num i"
    using mod_step_back [OF assms(2,3)] by simp
  have p1: "currentSlide (showPrevSlide p) = Num ((i - 1) mod N)"
    using prev_slide_index [OF assms(5) ip] assms(4) by simp
  have "currentSlide (showNextSlide (showPrevSlide p)) = Num (((i - 1) mod N + 1) mod N)"
    using next_slide_index [OF p1] posN assms(4) by simp
  then show "currentSlide (showNextSlide (showPrevSlide p)) = Num i"
    using mod_step_forth [OF assms(2,3)] by simp
  have n2: "currentAboutIndex (showNextCard a) = Num ((i + 1) mod N)"
    using next_card_index [OF assms(7) ia] assms(6) by simp
  have "currentAboutIndex (showPrevCard (showNextCard a)) = Num (((i + 1) mod N - 1) mod N)"
    using prev_card_index [OF n2] posN assms(6) by simp
  then show "currentAboutIndex (showPrevCard (showNextCard a)) = Num i"
    using mod_step_back [OF assms(2,3)] by simp
  have p2: "currentAboutIndex (showPrevCard a) = Num ((i - 1) mod N)"
    using prev_card_index [OF assms(7) ia] assms(6) by simp
  have "currentAboutIndex (showNextCard (showPrevCard a)) = Num (((i - 1) mod N + 1) mod N)"
    using next_card_index [OF p2] posN assms(6) by simp
  then show "currentAboutIndex (showNextCard (showPrevCard a)) = Num i"
    using mod_step_forth [OF assms(2,3)] by simp
qed

definition three_slides :: ProjectCarousel where
  "three_slides =
     \<lparr>navDots = [\<lparr>data_slide = Num 0, dot_active = False\<rparr>,
                 \<lparr>data_slide = Num 1, dot_active = False\<rparr>,
                 \<lparr>data_slide = Num 2, dot_active = True\<rparr>],
      projectSlides = [\<lparr>slide_active = False, slide_opacity = ''0''\<rparr>,
                       \<lparr>slide_active = False, slide_opacity = ''0''\<rparr>,
                       \<lparr>slide_active = True, slide_opacity = ''1''\<rparr>],
      prevArrow = True, nextArrow = True,
      currentSlide = Num 2, totalSlides = 3, pendingShow = []\<rparr>"

definition three_cards :: AboutCarousel where
  "three_cards =
     \<lparr>aboutCards = [\<lparr>card_active = False, offsetWidth = 300\<rparr>,
                    \<lparr>card_active = False, offsetWidth = 300\<rparr>,
                    \<lparr>card_active = True, offsetWidth = 300\<rparr>],
      aboutTrack = Some \<lparr>containerWidth = 1000, transform = Unset\<rparr>,
      aboutPrevBtn = True, aboutNextBtn = True,
      currentAboutIndex = Num 2, totalAboutCards = 3\<rparr>"

theorem carousel_next_cyclic_prev_inverse_witness:
  "currentSlide ((showNextSlide ^^ nat 3) three_slides) = Num 2
   \<and> currentSlide (showPrevSlide (showNextSlide three_slides)) = Num 2
   \<and> currentSlide (showNextSlide (showPrevSlide three_slides)) = Num 2
   \<and> currentAboutIndex ((showNextCard ^^ nat 3) three_cards) = Num 2
   \<and> currentAboutIndex (showPrevCard (showNextCard three_cards)) = Num 2
   \<and> currentAboutIndex (showNextCard (showPrevCard three_cards)) = Num 2"
  using carousel_next_cyclic_prev_inverse [of 3 2 three_slides three_cards]
  by (simp add: three_slides_def three_cards_def)

lemma bound_index_in_range: "1 \<le> N \<Longrightarrow> in_range N (bound_index N (Num j))"
  by (simp add: bound_index_def)

text \<open>
  C2. On a carousel with \<open>N \<ge> 1\<close> slides whose index \<open>i\<close> lies in \<open>[0, N)\<close>, the
  next and prev transitions of both carousels lead to \<open>(i + 1) mod N\<close> and
  \<open>(i - 1) mod N\<close>, which lie in \<open>[0, N)\<close>; and \<open>showSlide\<close> leads from every integer
  argument \<open>j\<close>, negative or beyond the last slide too, to an index in \<open>[0, N)\<close>.
\<close>

theorem carousel_index_in_range:
  assumes "1 \<le> N" and "0 \<le> i" and "i < N"
    and "totalSlides p = N" and "currentSlide p = Num i"
    and "totalAboutCards a = N" and "currentAboutIndex a = Num i"
  shows "currentSlide (showNextSlide p) = Num ((i + 1) mod N)
       \<and> currentSlide (showPrevSlide p) = Num ((i - 1) mod N)
       \<and> currentAboutIndex (showNextCard a) = Num ((i + 1) mod N)
       \<and> currentAboutIndex (showPrevCard a) = Num ((i - 1) mod N)
       \<and> in_range N (currentSlide (showNextSlide p))
       \<and> in_range N (currentSlide (showPrevSlide p))
       \<and> in_range N (currentAboutIndex (showNextCard a))
       \<and> in_range N (currentAboutIndex (showPrevCard a))
       \<and> in_range N (currentSlide (showSlide (Num j) p))"
proof -
  have ip: "0 \<le> i" "i < totalSlides p" and ia: "0 \<le> i" "i < totalAboutCards a"
    using assms by simp_all
  have posN: "0 < N" using assms(1) by simp
  have n1: "currentSlide (showNextSlide p) = Num ((i + 1) mod N)"
    using next_slide_index [OF assms(5) ip] assms(4) by simp
  have p1: "currentSlide (showPrevSlide p) = Num ((i - 1) mod N)"
    using prev_slide_index [OF assms(5) ip] assms(4) by simp
  have n2: "currentAboutIndex (showNextCard a) = Num ((i + 1) mod N)"
    using next_card_index [OF assms(7) ia] assms(6) by simp
  have p2: "currentAboutIndex (showPrevCard a) = Num ((i - 1) mod N)"
    using prev_card_index [OF assms(7) ia] assms(6) by simp
  have up: "0 \<le> (i + 1) mod N" "(i + 1) mod N < N"
    and dn: "0 \<le> (i - 1) mod N" "(i - 1) mod N < N"
    using posN by simp_all
  have goto: "in_range N (currentSlide (showSlide (Num j) p))"
    using bound_index_in_range [OF assms(1)] assms(4) by simp
  show ?thesis
    using n1 p1 n2 p2 up dn goto by simp
qed

theorem carousel_index_in_range_witness:
  "currentSlide (showNextSlide three_slides) = Num 0
   \<and> currentSlide (showPrevSlide three_slides) = Num 1
   \<and> currentAboutIndex (showNextCard three_cards) = Num 0
   \<and> currentAboutIndex (showPrevCard three_cards) = Num 1
   \<and> in_range 3 (currentSlide (showSlide (Num (- 7)) three_slides))"
  using carousel_index_in_range [of 3 2 three_slides three_cards "- 7"]
  by (simp add: three_slides_def three_cards_def)

text \<open>
  C3. A carousel constructed over no slides (no cards) binds nothing: \<open>init\<close> returns at
  its first line, before any \<open>addEventListener\<close> or \<open>setTimeout\<close>, whatever dots, arrows
  and track the page has. The constructor and \<open>init\<close> contain no operation that can throw
  on this path, so they are total functions here.
\<close>

theorem empty_carousel_inert:
  "listeners (snd (ProjectCarousel_new dots [] prv nxt)) = []
   \<and> timeouts (snd (ProjectCarousel_new dots [] prv nxt)) = []
   \<and> listeners (snd (AboutCarousel_new [] trk aprv anxt)) = []
   \<and> timeouts (snd (AboutCarousel_new [] trk aprv anxt)) = []"
  by (simp add: ProjectCarousel_new_def ProjectCarousel_init_def AboutCarousel_new_def
      AboutCarousel_init_def no_registration_def)

section \<open>The initial card of AboutCarousel\<close>

text \<open>
  A card is the middle one of \<open>N\<close> cards when as many cards come before it as after it.
\<close>

definition middle_card :: "int \<Rightarrow> int \<Rightarrow> bool" where
  "middle_card N k = (0 \<le> k \<and> k < N \<and> k = N - 1 - k)"

lemma length_mark_cards [simp]: "length (mark_cards cur k cds) = length cds"
  by (induction cds arbitrary: k) simp_all

lemma mark_cards_nth:
  "j < length cds \<Longrightarrow>
   card_active (mark_cards cur k cds ! j) = js_strict_eq (Num (int (k + j))) cur"
proof (induction cds arbitrary: k j)
  case Nil
  then show ?case by simp
next
  case (Cons cd cds)
  show ?case
  proof (cases j)
    case 0
    then show ?thesis by simp
  next
    case (Suc m)
    with Cons.prems have "m < length cds" by simp
    from Cons.IH [OF this, of "Suc k"] Suc show ?thesis by simp
  qed
qed

lemma AboutCarousel_new_fst:
  "fst (AboutCarousel_new cards trk prv nxt) =
     \<lparr>aboutCards = cards, aboutTrack = trk, aboutPrevBtn = prv, aboutNextBtn = nxt,
      currentAboutIndex = Num 1, totalAboutCards = int (length cards)\<rparr>"
  by (simp add: AboutCarousel_new_def Let_def)

text \<open>
  C10. The constructor sets the index to 1 whatever the number of cards. The first
  \<open>updateCarousel\<close> therefore marks the card at position 1 and no other, and that card is
  the middle one exactly when there are three cards. With a single card the index 1 is
  outside \<open>[0, 1)\<close>, the first update leaves the card inactive, and the first next or prev
  transition brings the index to 0.
\<close>

theorem about_initial_index_one:
  "currentAboutIndex (fst (AboutCarousel_new cards trk prv nxt)) = Num 1
   \<and> (\<forall>k < length cards.
         card_active (aboutCards (updateCarousel (fst (AboutCarousel_new cards trk prv nxt))) ! k)
         = (k = 1))
   \<and> (middle_card (int (length cards)) 1 \<longleftrightarrow> length cards = 3)
   \<and> \<not> in_range 1 (currentAboutIndex (fst (AboutCarousel_new [cd] trk prv nxt)))
   \<and> aboutCards (updateCarousel (fst (AboutCarousel_new [cd] trk prv nxt)))
       = [cd\<lparr>card_active := False\<rparr>]
   \<and> currentAboutIndex (showNextCard (fst (AboutCarousel_new [cd] trk prv nxt))) = Num 0
   \<and> currentAboutIndex (showPrevCard (fst (AboutCarousel_new [cd] trk prv nxt))) = Num 0
   \<and> in_range 1 (Num 0)"
proof -
  have a: "currentAboutIndex (fst (AboutCarousel_new cards trk prv nxt)) = Num 1"
    by (simp add: AboutCarousel_new_fst)
  have b: "\<forall>k < length cards.
         card_active (aboutCards (updateCarousel (fst (AboutCarousel_new cards trk prv nxt))) ! k)
         = (k = 1)"
    by (simp add: AboutCarousel_new_fst updateCarousel_def mark_cards_nth)
  have c: "middle_card (int (length cards)) 1 \<longleftrightarrow> length cards = 3"
    by (auto simp add: middle_card_def)
  have d: "\<not> in_range 1 (currentAboutIndex (fst (AboutCarousel_new [cd] trk prv nxt)))"
    by (simp add: AboutCarousel_new_fst)
  have e: "aboutCards (updateCarousel (fst (AboutCarousel_new [cd] trk prv nxt)))
       = [cd\<lparr>card_active := False\<rparr>]"
    by (simp add: AboutCarousel_new_fst updateCarousel_def)
  have f: "currentAboutIndex (showNextCard (fst (AboutCarousel_new [cd] trk prv nxt))) = Num 0"
    by (simp add: AboutCarousel_new_fst showNextCard_def)
  have g: "currentAboutIndex (showPrevCard (fst (AboutCarousel_new [cd] trk prv nxt))) = Num 0"
    by (simp add: AboutCarousel_new_fst showPrevCard_def)
  from a b c d e f g show ?thesis by simp
qed

definition plain_card :: card where
  "plain_card = \<lparr>card_active = False, offsetWidth = 300\<rparr>"

theorem about_initial_index_one_witness:
  "currentAboutIndex (fst (AboutCarousel_new [plain_card, plain_card] None True True)) = Num 1
   \<and> card_active (aboutCards (updateCarousel
         (fst (AboutCarousel_new [plain_card, plain_card] None True True))) ! 1)
   \<and> \<not> card_active (aboutCards (updateCarousel
         (fst (AboutCarousel_new [plain_card, plain_card] None True True))) ! 0)
   \<and> \<not> middle_card 2 1
   \<and> aboutCards (updateCarousel (fst (AboutCarousel_new [plain_card] None True True)))
       = [plain_card]"
  using about_initial_index_one [of "[plain_card, plain_card]" None True True plain_card]
  by (simp add: plain_card_def AboutCarousel_new_fst updateCarousel_def middle_card_def)

section \<open>Touch gestures on AboutCarousel\<close>

text \<open>
  \<open>initTouchSupport\<close> keeps three variables in a closure: \<open>startX\<close>, \<open>currentX\<close> and
  \<open>isDragging\<close>. The handlers read \<open>e.touches[0].clientX\<close>, here an integer number of
  pixels. \<open>fired\<close> lists the transitions the handlers have called so far.
\<close>

datatype transition = Next | Prev

datatype touch_event = TouchStart int | TouchMove int | TouchEnd

record swipe =
  carousel :: AboutCarousel
  startX :: int
  currentX :: int
  isDragging :: bool
  fired :: "transition list"

definition swipe_init :: "AboutCarousel \<Rightarrow> swipe" where
  "swipe_init c = \<lparr>carousel = c, startX = 0, currentX = 0, isDragging = False, fired = []\<rparr>"

fun touch_handler :: "touch_event \<Rightarrow> swipe \<Rightarrow> swipe" where
  "touch_handler (TouchStart x) s = s\<lparr>startX := x, isDragging := True\<rparr>"
| "touch_handler (TouchMove x) s = (if \<not> isDragging s then s else s\<lparr>currentX := x\<rparr>)"
| "touch_handler TouchEnd s =
     (if \<not> isDragging s then s
      else let diff = startX s - currentX s;
               s' = (if \<bar>diff\<bar> > 50
                     then (if diff > 0
                           then s\<lparr>carousel := showNextCard (carousel s),
                                  fired := fired s @ [Next]\<rparr>
                           else s\<lparr>carousel := showPrevCard (carousel s),
                                  fired := fired s @ [Prev]\<rparr>)
                     else s)
           in s'\<lparr>isDragging := False\<rparr>)"

definition gesture :: "touch_event list \<Rightarrow> swipe \<Rightarrow> swipe" where
  "gesture evs s = fold touch_handler evs s"

lemma moves_keep:
  "isDragging s \<Longrightarrow>
   fold touch_handler (map TouchMove xs) s = s\<lparr>currentX := last (currentX s # xs)\<rparr>"
  by (induction xs arbitrary: s) simp_all

text \<open>
  A gesture whose finger moved at least once, ending at \<open>x1\<close>: the handlers compare the
  start with the last move, and fire once beyond 50 pixels and not at all otherwise.
\<close>

lemma swipe_with_move:
  "fired (gesture (TouchStart x0 # map TouchMove xs @ [TouchMove x1, TouchEnd]) s)
   = fired s @ (if \<bar>x0 - x1\<bar> \<le> 50 then [] else if x0 - x1 > 0 then [Next] else [Prev])"
  by (simp add: gesture_def moves_keep Let_def)

text \<open>
  C7 fails on a tap. A touch that starts at \<open>x = 200\<close> and ends without a \<open>touchmove\<close> in
  between has displacement 0, yet \<open>touchend\<close> compares \<open>startX = 200\<close> with the
  \<open>currentX = 0\<close> the closure started with, finds a difference of 200 and calls
  \<open>showNextCard\<close>: the carousel moves from card 2 to card 0.
\<close>

theorem tap_fires_next:
  "fired (gesture [TouchStart 200, TouchEnd] (swipe_init three_cards)) = [Next]
   \<and> currentAboutIndex (carousel (gesture [TouchStart 200, TouchEnd] (swipe_init three_cards)))
       = Num 0"
  by (simp add: gesture_def swipe_init_def three_cards_def showNextCard_def Let_def)

section \<open>copyToClipboard (both script versions)\<close>

text \<open>
  What the browser answers is a parameter: whether \<open>await navigator.clipboard.writeText\<close>
  resolves (a rejection and a missing \<open>navigator.clipboard\<close> both land in the \<open>catch\<close>),
  and what \<open>document.execCommand('copy')\<close> does: it returns a boolean, \<open>false\<close> when the
  command is unsupported or did not copy, or it throws.
\<close>

datatype exec_outcome = ExecReturns bool | ExecThrows

record platform =
  writeText_resolves :: bool
  execCommand_copy :: exec_outcome

record textarea =
  ta_id :: nat
  ta_value :: string
  ta_style :: "(string \<times> string) list"
  ta_selected :: bool

datatype dom_op =
    TryWriteText string | CreateElement nat | AppendChild nat | Select nat
  | ExecCommand | RemoveChild nat

text \<open>
  The document: the children of \<open>document.body\<close> by node identity, the elements made by
  \<open>createElement\<close>, the next unused identity, the system clipboard, and the sequence of
  DOM and clipboard calls made so far. \<open>copyToClipboard\<close> is called from click handlers
  bound at \<open>DOMContentLoaded\<close>, so \<open>document.body\<close> exists.
\<close>

record document =
  body :: "nat list"
  created :: "textarea list"
  next_node :: nat
  clipboard :: string
  ops :: "dom_op list"

definition createTextArea :: "document \<Rightarrow> nat \<times> document" where
  "createTextArea d =
     (next_node d,
      d\<lparr>created := created d @
            [\<lparr>ta_id = next_node d, ta_value = [], ta_style = [], ta_selected = False\<rparr>],
        next_node := Suc (next_node d),
        ops := ops d @ [CreateElement (next_node d)]\<rparr>)"

definition update_node :: "nat \<Rightarrow> (textarea \<Rightarrow> textarea) \<Rightarrow> document \<Rightarrow> document" where
  "update_node n f d = d\<lparr>created := map (\<lambda>t. if ta_id t = n then f t else t) (created d)\<rparr>"

definition appendChild :: "nat \<Rightarrow> document \<Rightarrow> document" where
  "appendChild n d = d\<lparr>body := body d @ [n], ops := ops d @ [AppendChild n]\<rparr>"

definition select :: "nat \<Rightarrow> document \<Rightarrow> document" where
  "select n d = (update_node n (\<lambda>t. t\<lparr>ta_selected := True\<rparr>) d)\<lparr>ops := ops d @ [Select n]\<rparr>"

text \<open>\<open>removeChild\<close> is only ever called on the node appended a few lines before.\<close>

definition removeChild :: "nat \<Rightarrow> document \<Rightarrow> document" where
  "removeChild n d = d\<lparr>body := remove1 n (body d), ops := ops d @ [RemoveChild n]\<rparr>"

text \<open>A successful \<open>execCommand('copy')\<close> puts the selected text on the clipboard.\<close>

definition selected_text :: "document \<Rightarrow> string" where
  "selected_text d = concat (map ta_value (filter ta_selected (created d)))"

definition execCommand :: "platform \<Rightarrow> document \<Rightarrow> exec_outcome \<times> document" where
  "execCommand pf d =
     (execCommand_copy pf,
      (case execCommand_copy pf of
         ExecReturns True \<Rightarrow> d\<lparr>clipboard := selected_text d\<rparr>
       | _ \<Rightarrow> d)\<lparr>ops := ops d @ [ExecCommand]\<rparr>)"

text \<open>
  The two versions differ in how they style the textarea, so the style is a parameter of
  the common body. The result of \<open>execCommand\<close> is not looked at: the inner \<open>try\<close> returns
  \<open>true\<close> unless the call throws.
\<close>

definition copyToClipboard_with ::
  "(string \<times> string) list \<Rightarrow> platform \<Rightarrow> string \<Rightarrow> document \<Rightarrow> bool \<times> document" where
  "copyToClipboard_with sty pf text d =
     (let d0 = d\<lparr>ops := ops d @ [TryWriteText text]\<rparr> in
      if writeText_resolves pf then (True, d0\<lparr>clipboard := text\<rparr>)
      else
        let (textArea, d1) = createTextArea d0;
            d2 = update_node textArea (\<lambda>t. t\<lparr>ta_value := text, ta_style := sty\<rparr>) d1;
            d3 = appendChild textArea d2;
            d4 = select textArea d3;
            (r, d5) = execCommand pf d4
        in case r of
             ExecReturns _ \<Rightarrow> (True, removeChild textArea d5)
           | ExecThrows \<Rightarrow> (False, removeChild textArea d5))"

definition copyToClipboard :: "platform \<Rightarrow> string \<Rightarrow> document \<Rightarrow> bool \<times> document" where
  "copyToClipboard =
     copyToClipboard_with [(''position'', ''fixed''), (''opacity'', ''0'')]"

definition copyToClipboard_part_000 ::
  "platform \<Rightarrow> string \<Rightarrow> document \<Rightarrow> bool \<times> document" where
  "copyToClipboard_part_000 =
     copyToClipboard_with [(''cssText'', ''position:fixed;opacity:0;top:0;left:0'')]"

lemma copy_primary:
  "writeText_resolves pf \<Longrightarrow>
   copyToClipboard_with sty pf text d
   = (True, d\<lparr>ops := ops d @ [TryWriteText text], clipboard := text\<rparr>)"
  by (simp add: copyToClipboard_with_def Let_def)

lemma copy_fallback_result:
  "\<not> writeText_resolves pf \<Longrightarrow>
   fst (copyToClipboard_with sty pf text d) = (execCommand_copy pf \<noteq> ExecThrows)"
  by (simp add: copyToClipboard_with_def Let_def createTextArea_def execCommand_def
      split: exec_outcome.splits bool.splits)

lemma copy_fallback_ops:
  "\<not> writeText_resolves pf \<Longrightarrow>
   ops (snd (copyToClipboard_with sty pf text d))
   = ops d @ [TryWriteText text, CreateElement (next_node d), AppendChild (next_node d),
              Select (next_node d), ExecCommand, RemoveChild (next_node d)]"
  by (simp add: copyToClipboard_with_def Let_def createTextArea_def execCommand_def
      update_node_def appendChild_def select_def removeChild_def
      split: exec_outcome.splits bool.splits)

lemma remove1_fresh: "n \<notin> set xs \<Longrightarrow> remove1 n (xs @ [n]) = xs"
  by (induction xs) auto

lemma copy_fallback_body:
  assumes "\<not> writeText_resolves pf" and "next_node d \<notin> set (body d)"
  shows "body (snd (copyToClipboard_with sty pf text d)) = body d"
  using assms
  by (simp add: copyToClipboard_with_def Let_def createTextArea_def execCommand_def
      update_node_def appendChild_def select_def removeChild_def remove1_fresh
      split: exec_outcome.splits bool.splits)

text \<open>
  C4. Let the children of the body be existing nodes. If the primary write resolves,
  \<open>copyToClipboard\<close> returns \<open>true\<close> and its only effect is the write: no element is
  created. If it does not, the calls made are exactly: create the textarea, append it,
  select it, run the copy command, remove it; one append and one removal whatever the copy
  command does, and the body has the children it had before. Both script versions.
\<close>

theorem copyToClipboard_cleanup:
  assumes "\<forall>k \<in> set (body d). k < next_node d"
  shows "(if writeText_resolves pf
          then copyToClipboard pf text d
                 = (True, d\<lparr>ops := ops d @ [TryWriteText text], clipboard := text\<rparr>)
               \<and> copyToClipboard_part_000 pf text d
                 = (True, d\<lparr>ops := ops d @ [TryWriteText text], clipboard := text\<rparr>)
          else ops (snd (copyToClipboard pf text d))
                 = ops d @ [TryWriteText text, CreateElement (next_node d),
                            AppendChild (next_node d), Select (next_node d), ExecCommand,
                            RemoveChild (next_node d)]
               \<and> body (snd (copyToClipboard pf text d)) = body d
               \<and> next_node d \<notin> set (body (snd (copyToClipboard pf text d)))
               \<and> ops (snd (copyToClipboard_part_000 pf text d))
                 = ops d @ [TryWriteText text, CreateElement (next_node d),
                            AppendChild (next_node d), Select (next_node d), ExecCommand,
                            RemoveChild (next_node d)]
               \<and> body (snd (copyToClipboard_part_000 pf text d)) = body d
               \<and> next_node d \<notin> set (body (snd (copyToClipboard_part_000 pf text d))))"
proof (cases "writeText_resolves pf")
  case True
  then show ?thesis
    by (simp add: copyToClipboard_def copyToClipboard_part_000_def copy_primary)
next
  case False
  from assms have fresh: "next_node d \<notin> set (body d)"
    by auto
  from False fresh show ?thesis
    by (simp add: copyToClipboard_def copyToClipboard_part_000_def copy_fallback_ops
        copy_fallback_body)
qed

definition page :: document where
  "page = \<lparr>body = [0, 1, 2], created = [], next_node = 3, clipboard = ''old'', ops = []\<rparr>"

theorem copyToClipboard_cleanup_witness:
  "ops (snd (copyToClipboard \<lparr>writeText_resolves = False, execCommand_copy = ExecThrows\<rparr>
                             ''vedpawar1410@gmail.com'' page))
     = [TryWriteText ''vedpawar1410@gmail.com'', CreateElement 3, AppendChild 3, Select 3,
        ExecCommand, RemoveChild 3]
   \<and> body (snd (copyToClipboard \<lparr>writeText_resolves = False, execCommand_copy = ExecThrows\<rparr>
                               ''vedpawar1410@gmail.com'' page)) = [0, 1, 2]"
  using copyToClipboard_cleanup
    [of page "\<lparr>writeText_resolves = False, execCommand_copy = ExecThrows\<rparr>"
        "''vedpawar1410@gmail.com''"]
  by (simp add: page_def)

text \<open>
  C5 fails where the copy command reports failure by its return value. With the primary
  write rejected and \<open>execCommand('copy')\<close> returning \<open>false\<close>, nothing reaches the
  clipboard, and both versions of \<open>copyToClipboard\<close> return \<open>true\<close>.
\<close>

theorem execCommand_false_reported_as_success:
  "fst (copyToClipboard \<lparr>writeText_resolves = False, execCommand_copy = ExecReturns False\<rparr>
                        ''vedpawar1410@gmail.com'' page) = True
   \<and> clipboard (snd (copyToClipboard
          \<lparr>writeText_resolves = False, execCommand_copy = ExecReturns False\<rparr>
          ''vedpawar1410@gmail.com'' page)) = ''old''
   \<and> fst (copyToClipboard_part_000
          \<lparr>writeText_resolves = False, execCommand_copy = ExecReturns False\<rparr>
          ''vedpawar1410@gmail.com'' page) = True
   \<and> clipboard (snd (copyToClipboard_part_000
          \<lparr>writeText_resolves = False, execCommand_copy = ExecReturns False\<rparr>
          ''vedpawar1410@gmail.com'' page)) = ''old''"
  by (simp add: copyToClipboard_def copyToClipboard_part_000_def copyToClipboard_with_def
      Let_def createTextArea_def execCommand_def update_node_def appendChild_def select_def
      removeChild_def page_def)

section \<open>showToast (both script versions)\<close>

text \<open>
  Time is counted in milliseconds. The toast element, if the page has one, carries its text
  and whether the class \<open>show\<close> is on it. Every call of \<open>showToast\<close> leaves one callback
  with the browser; \<open>hide_timers\<close> holds the times at which they are due. The default
  duration is 2000 in script.js and 2500 in the other version.
\<close>

record toast_el =
  textContent :: string
  shown :: bool

record toast_state =
  toast :: "toast_el option"
  hide_timers :: "nat list"
  toast_clock :: nat

definition showToast :: "string \<Rightarrow> nat \<Rightarrow> toast_state \<Rightarrow> toast_state" where
  "showToast message duration s =
     (case toast s of
        None \<Rightarrow> s
      | Some t \<Rightarrow>
          s\<lparr>toast := Some (t\<lparr>textContent := message, shown := True\<rparr>),
            hide_timers := hide_timers s @ [toast_clock s + duration]\<rparr>)"

text \<open>The callback: \<open>toast.classList.remove('show')\<close>.\<close>

definition hide_toast :: "toast_state \<Rightarrow> toast_state" where
  "hide_toast s = s\<lparr>toast := map_option (\<lambda>t. t\<lparr>shown := False\<rparr>) (toast s)\<rparr>"

text \<open>
  Time passes until \<open>T\<close>: the callbacks due by then run (they are all the same, so their
  order is immaterial) and leave the timer list.
\<close>

definition toast_elapse :: "nat \<Rightarrow> toast_state \<Rightarrow> toast_state" where
  "toast_elapse T s =
     (fold (\<lambda>_. hide_toast) (filter (\<lambda>due. due \<le> T) (hide_timers s)) s)
       \<lparr>hide_timers := filter (\<lambda>due. T < due) (hide_timers s),
        toast_clock := max (toast_clock s) T\<rparr>"

definition toast_shown :: "toast_state \<Rightarrow> bool" where
  "toast_shown s = (case toast s of None \<Rightarrow> False | Some t \<Rightarrow> shown t)"

definition toast_text :: "toast_state \<Rightarrow> string" where
  "toast_text s = (case toast s of None \<Rightarrow> [] | Some t \<Rightarrow> textContent t)"

definition toast_idle :: toast_state where
  "toast_idle = \<lparr>toast = Some \<lparr>textContent = [], shown = False\<rparr>, hide_timers = [],
                 toast_clock = 0\<rparr>"

text \<open>
  Two calls, at \<open>t1\<close> and at \<open>t2\<close>, on a page in the state \<open>s\<close>, which may have
  callbacks of earlier calls pending.
\<close>

definition two_toasts ::
  "toast_state \<Rightarrow> nat \<Rightarrow> string \<Rightarrow> nat \<Rightarrow> nat \<Rightarrow> string \<Rightarrow> nat \<Rightarrow> toast_state" where
  "two_toasts s t1 m1 d1 t2 m2 d2 =
     showToast m2 d2 (toast_elapse t2 (showToast m1 d1 (toast_elapse t1 s)))"

lemma hide_toast_twice: "hide_toast (hide_toast s) = hide_toast s"
  by (cases "toast s") (simp_all add: hide_toast_def)

lemma fold_hide_toast:
  "fold (\<lambda>_. hide_toast) xs s = (if xs = [] then s else hide_toast s)"
proof (induction xs arbitrary: s)
  case Nil
  show ?case by simp
next
  case (Cons x xs)
  then show ?case by (simp add: hide_toast_twice)
qed

lemma toast_elapse_toast:
  "toast (toast_elapse T s) =
     (if \<forall>due \<in> set (hide_timers s). T < due then toast s
      else map_option (\<lambda>t. t\<lparr>shown := False\<rparr>) (toast s))"
  by (auto simp add: toast_elapse_def fold_hide_toast hide_toast_def filter_empty_conv
      not_le)

lemma toast_elapse_timers:
  "hide_timers (toast_elapse T s) = filter (\<lambda>due. T < due) (hide_timers s)"
  by (simp add: toast_elapse_def)

lemma toast_elapse_clock:
  "toast_clock (toast_elapse T s) = max (toast_clock s) T"
  by (simp add: toast_elapse_def)

lemma showToast_present:
  "toast s = Some el \<Longrightarrow>
   showToast m d s = s\<lparr>toast := Some (el\<lparr>textContent := m, shown := True\<rparr>),
                        hide_timers := hide_timers s @ [toast_clock s + d]\<rparr>"
  by (simp add: showToast_def)

lemma toast_elapse_present:
  "toast s = Some el \<Longrightarrow> \<exists>el'. toast (toast_elapse T s) = Some el'"
  by (simp add: toast_elapse_toast)

lemma two_toasts_fields:
  assumes "toast s = Some el" and "toast_clock s \<le> t1" and "t1 \<le> t2" and "t2 < t1 + d1"
  shows "toast (two_toasts s t1 m1 d1 t2 m2 d2) = Some \<lparr>textContent = m2, shown = True\<rparr>"
    and "hide_timers (two_toasts s t1 m1 d1 t2 m2 d2)
         = filter (\<lambda>due. t2 < due) (hide_timers s) @ [t1 + d1, t2 + d2]"
proof -
  let ?a = "toast_elapse t1 s"
  from assms(1) obtain ea where ea: "toast ?a = Some ea"
    using toast_elapse_present by blast
  let ?b = "showToast m1 d1 ?a"
  have b: "?b = ?a\<lparr>toast := Some (ea\<lparr>textContent := m1, shown := True\<rparr>),
                   hide_timers := hide_timers ?a @ [toast_clock ?a + d1]\<rparr>"
    using ea by (rule showToast_present)
  have bclock: "toast_clock ?b = t1"
    using assms(2) by (simp add: b toast_elapse_clock max_def)
  have btimers: "hide_timers ?b = filter (\<lambda>due. t1 < due) (hide_timers s) @ [t1 + d1]"
    using assms(2) by (simp add: b toast_elapse_timers toast_elapse_clock max_def)
  let ?c = "toast_elapse t2 ?b"
  have "\<exists>e. toast ?b = Some e"
    by (simp add: b)
  then obtain ec where ec: "toast ?c = Some ec"
    using toast_elapse_present by blast
  have cclock: "toast_clock ?c = t2"
    using assms(3) by (simp add: toast_elapse_clock bclock max_def)
  have "filter (\<lambda>due. t2 < due) (filter (\<lambda>due. t1 < due) (hide_timers s))
        = filter (\<lambda>due. t2 < due) (hide_timers s)"
    using assms(3) by (auto intro: filter_cong)
  then have ctimers: "hide_timers ?c = filter (\<lambda>due. t2 < due) (hide_timers s) @ [t1 + d1]"
    using assms(4) by (simp add: toast_elapse_timers btimers)
  have d: "two_toasts s t1 m1 d1 t2 m2 d2
           = ?c\<lparr>toast := Some (ec\<lparr>textContent := m2, shown := True\<rparr>),
                hide_timers := hide_timers ?c @ [toast_clock ?c + d2]\<rparr>"
    unfolding two_toasts_def using ec by (rule showToast_present)
  show "toast (two_toasts s t1 m1 d1 t2 m2 d2) = Some \<lparr>textContent = m2, shown = True\<rparr>"
    by (simp add: d)
  show "hide_timers (two_toasts s t1 m1 d1 t2 m2 d2)
         = filter (\<lambda>due. t2 < due) (hide_timers s) @ [t1 + d1, t2 + d2]"
    by (simp add: d ctimers cclock)
qed

text \<open>
  C6 as stated fails. Calls at 0 and at 1000 with the duration 2000: at 2000 the callback of
  the first call runs and hides the toast, 1000 ms after the second call.
\<close>

theorem toast_hidden_by_first_timer:
  "\<not> toast_shown (toast_elapse 2000
        (two_toasts toast_idle 0 ''Email copied'' 2000 1000
           ''Copy failed. Please try again.'' 2000))"
  by (simp add: two_toasts_def showToast_def toast_elapse_def toast_idle_def toast_shown_def
      hide_toast_def)

text \<open>
  C6 amended. The page has a toast element and is in any state, callbacks of earlier calls
  may be pending. A second call before the first call's duration has elapsed overwrites the
  text at once and shows the toast. No callback is cancelled: pending are the callbacks
  that were pending before and are not yet due, the one of the first call and the one of
  the second. From then on the text stays that of the second call, and the toast is shown
  exactly as long as none of the pending callbacks is due: it is hidden when the earliest
  of them runs, and stays hidden.
\<close>

theorem toast_second_call_no_reset:
  assumes "toast s = Some el" and "toast_clock s \<le> t1"
    and "t1 \<le> t2" and "t2 < t1 + d1" and "t2 \<le> T"
  shows "toast_text (two_toasts s t1 m1 d1 t2 m2 d2) = m2
       \<and> toast_shown (two_toasts s t1 m1 d1 t2 m2 d2)
       \<and> hide_timers (two_toasts s t1 m1 d1 t2 m2 d2)
           = filter (\<lambda>due. t2 < due) (hide_timers s) @ [t1 + d1, t2 + d2]
       \<and> toast_text (toast_elapse T (two_toasts s t1 m1 d1 t2 m2 d2)) = m2
       \<and> toast_shown (toast_elapse T (two_toasts s t1 m1 d1 t2 m2 d2))
           = (\<forall>due \<in> set (hide_timers (two_toasts s t1 m1 d1 t2 m2 d2)). T < due)
       \<and> (\<forall>T' \<ge> T. \<not> toast_shown (toast_elapse T (two_toasts s t1 m1 d1 t2 m2 d2))
             \<longrightarrow> \<not> toast_shown (toast_elapse T' (two_toasts s t1 m1 d1 t2 m2 d2)))"
proof -
  let ?s2 = "two_toasts s t1 m1 d1 t2 m2 d2"
  note f = two_toasts_fields [OF assms(1-4), of m1 m2 d2]
  have shown_iff: "toast_shown (toast_elapse U ?s2) = (\<forall>due \<in> set (hide_timers ?s2). U < due)"
    for U
    by (simp add: toast_shown_def toast_elapse_toast f(1))
  have text_eq: "toast_text (toast_elapse U ?s2) = m2" for U
    by (simp add: toast_text_def toast_elapse_toast f(1))
  have later: "\<not> toast_shown (toast_elapse T ?s2) \<longrightarrow> \<not> toast_shown (toast_elapse T' ?s2)"
    if "T \<le> T'" for T'
    using that unfolding shown_iff by force
  show ?thesis
    using f shown_iff [of T] text_eq [of T] later
    by (simp add: toast_text_def toast_shown_def)
qed

text \<open>
  Three calls at 0, 1500 and 1800 with the duration 2000: the callback of the call at 0
  hides the toast at 2000, before either callback of the later pair is due.
\<close>

theorem toast_second_call_no_reset_witness:
  "toast_text (two_toasts (showToast ''Email copied'' 2000 toast_idle)
                 1500 ''Phone copied'' 2000 1800 ''Copy failed'' 2000) = ''Copy failed''
   \<and> hide_timers (two_toasts (showToast ''Email copied'' 2000 toast_idle)
                 1500 ''Phone copied'' 2000 1800 ''Copy failed'' 2000) = [2000, 3500, 3800]
   \<and> toast_shown (toast_elapse 1999 (two_toasts (showToast ''Email copied'' 2000 toast_idle)
                 1500 ''Phone copied'' 2000 1800 ''Copy failed'' 2000))
   \<and> \<not> toast_shown (toast_elapse 2000 (two_toasts (showToast ''Email copied'' 2000 toast_idle)
                 1500 ''Phone copied'' 2000 1800 ''Copy failed'' 2000))
   \<and> toast_text (toast_elapse 2000 (two_toasts (showToast ''Email copied'' 2000 toast_idle)
                 1500 ''Phone copied'' 2000 1800 ''Copy failed'' 2000)) = ''Copy failed''"
  using toast_second_call_no_reset
      [of "showToast ''Email copied'' 2000 toast_idle"
          "\<lparr>textContent = ''Email copied'', shown = True\<rparr>"
          1500 1800 2000 1999 "''Phone copied''" "''Copy failed''" 2000]
    toast_second_call_no_reset
      [of "showToast ''Email copied'' 2000 toast_idle"
          "\<lparr>textContent = ''Email copied'', shown = True\<rparr>"
          1500 1800 2000 2000 "''Phone copied''" "''Copy failed''" 2000]
  by (simp add: showToast_def toast_idle_def)

section \<open>debounce (both script versions)\<close>

text \<open>
  The closure made by \<open>debounce(func, wait)\<close>: the variable \<open>timeout\<close> (undefined, or the
  identity of a timer), the timers it has pending with the browser (identity, time due,
  the arguments \<open>later\<close> closes over), the next timer identity, the time, and the arguments
  \<open>func\<close> has been called with, in order.
\<close>

record 'a debounced =
  wait :: nat
  timeout :: "nat option"
  pending :: "(nat \<times> nat \<times> 'a) list"
  next_timer :: nat
  now :: nat
  calls :: "'a list"

definition debounce :: "nat \<Rightarrow> 'a debounced" where
  "debounce w = \<lparr>wait = w, timeout = None, pending = [], next_timer = 0, now = 0, calls = []\<rparr>"

definition clearTimeout ::
  "nat option \<Rightarrow> (nat \<times> nat \<times> 'a) list \<Rightarrow> (nat \<times> nat \<times> 'a) list" where
  "clearTimeout t ps = (case t of None \<Rightarrow> ps | Some i \<Rightarrow> filter (\<lambda>p. fst p \<noteq> i) ps)"

definition executedFunction :: "'a \<Rightarrow> 'a debounced \<Rightarrow> 'a debounced" where
  "executedFunction args s =
     s\<lparr>pending := clearTimeout (timeout s) (pending s) @ [(next_timer s, now s + wait s, args)],
       timeout := Some (next_timer s),
       next_timer := Suc (next_timer s)\<rparr>"

text \<open>The timer \<open>p\<close> fires: it leaves the browser's list, and \<open>later\<close> runs.\<close>

definition later :: "nat \<times> nat \<times> 'a \<Rightarrow> 'a debounced \<Rightarrow> 'a debounced" where
  "later p s =
     s\<lparr>pending := clearTimeout (timeout s) (filter (\<lambda>q. fst q \<noteq> fst p) (pending s)),
       calls := calls s @ [snd (snd p)]\<rparr>"

definition due_by :: "nat \<Rightarrow> (nat \<times> nat \<times> 'a) list \<Rightarrow> (nat \<times> nat \<times> 'a) list" where
  "due_by T ps = filter (\<lambda>p. fst (snd p) \<le> T) ps"

lemma length_clearTimeout: "length (clearTimeout t ps) \<le> length ps"
  by (simp add: clearTimeout_def split: option.splits)

lemma later_shrinks:
  assumes "due_by T (pending s) \<noteq> []"
  shows "length (pending (later (arg_min_list (\<lambda>p. fst (snd p)) (due_by T (pending s))) s))
         < length (pending s)"
proof -
  let ?p = "arg_min_list (\<lambda>p. fst (snd p)) (due_by T (pending s))"
  from assms have "?p \<in> set (due_by T (pending s))"
    by (rule arg_min_list_in)
  then have "?p \<in> set (pending s)"
    by (simp add: due_by_def)
  then have "length (filter (\<lambda>q. fst q \<noteq> fst ?p) (pending s)) < length (pending s)"
    by (intro length_filter_less [of ?p]) simp_all
  moreover have "length (clearTimeout (timeout s) (filter (\<lambda>q. fst q \<noteq> fst ?p) (pending s)))
                 \<le> length (filter (\<lambda>q. fst q \<noteq> fst ?p) (pending s))"
    by (rule length_clearTimeout)
  ultimately show ?thesis
    by (simp add: later_def)
qed

text \<open>
  Time passes until \<open>T\<close>: as long as a timer is due, the one due first fires.
\<close>

function run_until :: "nat \<Rightarrow> 'a debounced \<Rightarrow> 'a debounced" where
  "run_until T s =
     (if due_by T (pending s) = [] then s\<lparr>now := max (now s) T\<rparr>
      else run_until T (later (arg_min_list (\<lambda>p. fst (snd p)) (due_by T (pending s))) s))"
  by pat_completeness auto
termination
  by (relation "measure (\<lambda>(T, s). length (pending s))") (simp_all add: later_shrinks)

declare run_until.simps [simp del]

text \<open>A sequence of calls of the debounced function, each at its time.\<close>

fun burst :: "(nat \<times> 'a) list \<Rightarrow> 'a debounced \<Rightarrow> 'a debounced" where
  "burst [] s = s"
| "burst ((t, args) # cs) s = burst cs (executedFunction args (run_until t s))"

text \<open>Every call falls within the wait window of the call before it.\<close>

fun spaced :: "nat \<Rightarrow> (nat \<times> 'a) list \<Rightarrow> bool" where
  "spaced w (c1 # c2 # cs) = (fst c1 \<le> fst c2 \<and> fst c2 < fst c1 + w \<and> spaced w (c2 # cs))"
| "spaced w _ = True"

lemma run_until_idle:
  "due_by T (pending s) = [] \<Longrightarrow> run_until T s = s\<lparr>now := max (now s) T\<rparr>"
  by (simp add: run_until.simps)

lemma run_until_fire:
  "due_by T (pending s) \<noteq> [] \<Longrightarrow>
   run_until T s = run_until T (later (arg_min_list (\<lambda>p. fst (snd p)) (due_by T (pending s))) s)"
  by (subst run_until.simps) simp

text \<open>The state right after a call at \<open>t\<close> with \<open>args\<close>, nothing executed since \<open>L\<close>.\<close>

definition armed :: "nat \<Rightarrow> nat \<Rightarrow> 'a \<Rightarrow> 'a list \<Rightarrow> 'a debounced \<Rightarrow> bool" where
  "armed w t args L s =
     (wait s = w \<and> now s = t \<and> calls s = L
      \<and> (\<exists>i. timeout s = Some i \<and> pending s = [(i, t + w, args)]))"

lemma armed_call:
  assumes "armed w t a L s" and "t \<le> t'" and "t' < t + w"
  shows "armed w t' a' L (executedFunction a' (run_until t' s))"
proof -
  from assms(1) obtain i where s: "wait s = w" "now s = t" "calls s = L"
    "timeout s = Some i" "pending s = [(i, t + w, a)]"
    by (auto simp add: armed_def)
  from s assms(3) have "due_by t' (pending s) = []"
    by (simp add: due_by_def)
  then have "run_until t' s = s\<lparr>now := max (now s) t'\<rparr>"
    by (rule run_until_idle)
  with s assms(2) show ?thesis
    by (simp add: armed_def executedFunction_def clearTimeout_def max_def)
qed

lemma armed_first: "armed w t a [] (executedFunction a (run_until t (debounce w)))"
proof -
  have "due_by t (pending (debounce w :: 'a debounced)) = []"
    by (simp add: due_by_def debounce_def)
  then have "run_until t (debounce w :: 'a debounced) = (debounce w)\<lparr>now := max (now (debounce w :: 'a debounced)) t\<rparr>"
    by (rule run_until_idle)
  then show ?thesis
    by (simp add: armed_def executedFunction_def clearTimeout_def debounce_def)
qed

lemma armed_burst:
  assumes "armed w t a L s" and "spaced w ((t, a) # cs)"
  shows "armed w (fst (last ((t, a) # cs))) (snd (last ((t, a) # cs))) L (burst cs s)"
  using assms
proof (induction cs arbitrary: s t a)
  case Nil
  then show ?case by simp
next
  case (Cons c cs)
  obtain t' a' where c: "c = (t', a')" by (cases c)
  from Cons.prems(2) c have le: "t \<le> t'" and lt: "t' < t + w" and sp: "spaced w ((t', a') # cs)"
    by simp_all
  from armed_call [OF Cons.prems(1) le lt]
  have "armed w t' a' L (executedFunction a' (run_until t' s))" .
  from Cons.IH [OF this sp] c show ?case by simp
qed

lemma armed_elapse:
  assumes "armed w t a L s"
  shows "calls (run_until T s) = (if t + w \<le> T then L @ [a] else L)"
proof -
  from assms obtain i where s: "wait s = w" "now s = t" "calls s = L"
    "timeout s = Some i" "pending s = [(i, t + w, a)]"
    by (auto simp add: armed_def)
  show ?thesis
  proof (cases "t + w \<le> T")
    case True
    with s have due: "due_by T (pending s) = [(i, t + w, a)]"
      by (simp add: due_by_def)
    then have "run_until T s = run_until T (later (i, t + w, a) s)"
      using run_until_fire [of T s] by simp
    moreover have "pending (later (i, t + w, a) s) = []"
      using s by (simp add: later_def clearTimeout_def)
    then have "run_until T (later (i, t + w, a) s)
               = (later (i, t + w, a) s)\<lparr>now := max (now (later (i, t + w, a) s)) T\<rparr>"
      by (intro run_until_idle) (simp add: due_by_def)
    ultimately show ?thesis
      using s True by (simp add: later_def)
  next
    case False
    with s have "due_by T (pending s) = []"
      by (simp add: due_by_def)
    then have "run_until T s = s\<lparr>now := max (now s) T\<rparr>"
      by (rule run_until_idle)
    with s False show ?thesis by simp
  qed
qed

text \<open>
  C8. A debounced function is called \<open>N \<ge> 1\<close> times, every call less than \<open>wait\<close> after
  the call before it. Then \<open>func\<close> runs exactly once, with the arguments of the last call,
  when \<open>wait\<close> has passed since the last call, and does not run before.
\<close>

theorem debounce_last_call_once:
  assumes "cs \<noteq> []" and "spaced w cs"
  shows "calls (run_until T (burst cs (debounce w)))
         = (if fst (last cs) + w \<le> T then [snd (last cs)] else [])"
proof -
  from assms(1) obtain t a cs' where cs: "cs = (t, a) # cs'"
    by (cases cs) auto
  have "armed w t a [] (executedFunction a (run_until t (debounce w)))"
    by (rule armed_first)
  from armed_burst [OF this] assms(2) cs
  have "armed w (fst (last cs)) (snd (last cs)) [] (burst cs (debounce w))"
    by simp
  from armed_elapse [OF this, of T] show ?thesis by simp
qed

theorem debounce_last_call_once_witness:
  "calls (run_until 400 (burst [(0, ''a''), (90, ''b''), (150, ''c'')] (debounce 100))) = [''c'']
   \<and> calls (run_until 249 (burst [(0, ''a''), (90, ''b''), (150, ''c'')] (debounce 100))) = []"
  using debounce_last_call_once [of "[(0, ''a''), (90, ''b''), (150, ''c'')]" 100 400]
    debounce_last_call_once [of "[(0, ''a''), (90, ''b''), (150, ''c'')]" 100 249]
  by simp

section \<open>Scroll animations: ScrollAnimations (script.js), initScrollAnimations (other version)\<close>

text \<open>
  Elements are named by numbers. The state holds the class list of every element, the
  list \<open>animatedElements\<close> of script.js (element and delay), the \<open>gridItems\<close> and the
  targets still observed by the two observers of the other version, the pending callbacks
  that will add \<open>visible\<close> (time due and element), and the time. \<open>marks\<close> is a record kept
  for the proofs: the elements in the order in which the token \<open>visible\<close> entered their
  class list.
\<close>

record anim =
  classes :: "nat \<Rightarrow> string list"
  animatedElements :: "(nat \<times> nat) list"
  gridItems :: "nat list"
  header_observed :: "nat list"
  item_observed :: "nat list"
  visible_timers :: "(nat \<times> nat) list"
  anim_now :: nat
  marks :: "nat list"

text \<open>\<open>element.classList.add(c)\<close>: a class list holds a token once.\<close>

definition classList_add :: "string \<Rightarrow> nat \<Rightarrow> anim \<Rightarrow> anim" where
  "classList_add c el s =
     (if c \<in> set (classes s el) then s
      else s\<lparr>classes := (classes s)(el := classes s el @ [c]),
             marks := (if c = ''visible'' then marks s @ [el] else marks s)\<rparr>)"

definition is_visible :: "anim \<Rightarrow> nat \<Rightarrow> bool" where
  "is_visible s el = (''visible'' \<in> set (classes s el))"

subsection \<open>script.js\<close>

record rect =
  rect_top :: int
  rect_bottom :: int

record geometry =
  innerHeight :: int
  clientHeight :: int
  boundingClientRect :: "nat \<Rightarrow> rect"

definition isInViewport :: "geometry \<Rightarrow> nat \<Rightarrow> int \<Rightarrow> bool" where
  "isInViewport g element offset =
     (rect_top (boundingClientRect g element)
        \<le> (if innerHeight g \<noteq> 0 then innerHeight g else clientHeight g) - offset
      \<and> rect_bottom (boundingClientRect g element) \<ge> offset)"

text \<open>What \<open>setupAnimations\<close> finds on the page with its selectors.\<close>

record page_query =
  section_headers :: "nat list"
  experience_cards :: "nat list"
  certification_cards :: "nat list"
  contact_icon_links :: "nat list"
  hero_content :: "nat list option"
  hero_illustration :: "nat option"

definition register :: "string \<Rightarrow> nat \<Rightarrow> nat \<Rightarrow> anim \<Rightarrow> anim" where
  "register c el delay s =
     (classList_add c el s)\<lparr>animatedElements := animatedElements s @ [(el, delay)]\<rparr>"

definition register_all :: "string \<Rightarrow> nat \<Rightarrow> nat list \<Rightarrow> anim \<Rightarrow> anim" where
  "register_all c stride els s =
     fold (\<lambda>(index, el). register c el (index * stride)) (enumerate 0 els) s"

definition setupAnimations :: "page_query \<Rightarrow> anim \<Rightarrow> anim" where
  "setupAnimations q s =
     (let s1 = register_all ''fade-in'' 0 (section_headers q) s;
          s2 = register_all ''scale-in'' 100 (experience_cards q) s1;
          s3 = register_all ''scale-in'' 100 (certification_cards q) s2;
          s4 = register_all ''stagger-item'' 80 (contact_icon_links q) s3;
          s5 = (case hero_content q of
                  None \<Rightarrow> s4
                | Some els \<Rightarrow> register_all ''fade-in'' 150 els s4)
      in case hero_illustration q of
           None \<Rightarrow> s5
         | Some el \<Rightarrow> register ''slide-in-right'' el 200 s5)"

definition check_one :: "geometry \<Rightarrow> nat \<times> nat \<Rightarrow> anim \<Rightarrow> anim" where
  "check_one g = (\<lambda>(element, delay) s.
     if isInViewport g element 100 \<and> \<not> is_visible s element
     then s\<lparr>visible_timers := visible_timers s @ [(anim_now s + delay, element)]\<rparr>
     else s)"

definition checkAnimations :: "geometry \<Rightarrow> anim \<Rightarrow> anim" where
  "checkAnimations g s = fold (check_one g) (animatedElements s) s"

subsection \<open>The other version\<close>

definition initScrollAnimations :: "nat list \<Rightarrow> nat list \<Rightarrow> anim \<Rightarrow> anim" where
  "initScrollAnimations sectionHeaders items s =
     (fold (classList_add ''fade-up'') sectionHeaders s)
       \<lparr>header_observed := sectionHeaders, gridItems := items, item_observed := items\<rparr>"

text \<open>The callbacks of the observers get entries: target and \<open>isIntersecting\<close>.\<close>

definition header_entry :: "nat \<times> bool \<Rightarrow> anim \<Rightarrow> anim" where
  "header_entry = (\<lambda>(target, isIntersecting) s.
     if isIntersecting
     then (classList_add ''visible'' target s)
            \<lparr>header_observed := removeAll target (header_observed s)\<rparr>
     else s)"

text \<open>\<open>Array.indexOf\<close>: the first position, or \<open>-1\<close>.\<close>

fun indexOf :: "nat list \<Rightarrow> nat \<Rightarrow> int" where
  "indexOf [] x = - 1"
| "indexOf (y # ys) x =
     (if x = y then 0 else (let r = indexOf ys x in if r < 0 then - 1 else r + 1))"

text \<open>
  The delay \<open>indexOf(target) % 3 * 100\<close>; \<open>setTimeout\<close> takes a negative delay as 0.
\<close>

definition item_delay :: "nat list \<Rightarrow> nat \<Rightarrow> nat" where
  "item_delay items target =
     (case js_rem (Num (indexOf items target)) (Num 3) of
        Num r \<Rightarrow> nat (r * 100)
      | NaN \<Rightarrow> 0)"

definition item_entry :: "nat \<times> bool \<Rightarrow> anim \<Rightarrow> anim" where
  "item_entry = (\<lambda>(target, isIntersecting) s.
     if isIntersecting
     then s\<lparr>visible_timers :=
              visible_timers s @ [(anim_now s + item_delay (gridItems s) target, target)],
            item_observed := removeAll target (item_observed s)\<rparr>
     else s)"

subsection \<open>Running\<close>

text \<open>Time passes until \<open>T\<close>: the callbacks due by then run in the order they are due.\<close>

definition anim_elapse :: "nat \<Rightarrow> anim \<Rightarrow> anim" where
  "anim_elapse T s =
     (fold (\<lambda>p. classList_add ''visible'' (snd p))
           (sort_key fst (filter (\<lambda>p. fst p \<le> T) (visible_timers s))) s)
       \<lparr>visible_timers := filter (\<lambda>p. T < fst p) (visible_timers s),
        anim_now := max (anim_now s) T\<rparr>"

text \<open>
  What can happen to the page: a viewport check of script.js (the first one, or one of the
  debounced scroll and resize handlers), a delivery of entries to one of the two observers,
  or time passing.
\<close>

datatype anim_event =
    CheckAnimations geometry
  | HeaderEntries "(nat \<times> bool) list"
  | ItemEntries "(nat \<times> bool) list"
  | Elapse nat

fun anim_step :: "anim_event \<Rightarrow> anim \<Rightarrow> anim" where
  "anim_step (CheckAnimations g) s = checkAnimations g s"
| "anim_step (HeaderEntries entries) s = fold header_entry entries s"
| "anim_step (ItemEntries entries) s = fold item_entry entries s"
| "anim_step (Elapse T) s = anim_elapse T s"

definition run_anim :: "anim_event list \<Rightarrow> anim \<Rightarrow> anim" where
  "run_anim evs s = fold anim_step evs s"

subsection \<open>The marker is gained once and kept\<close>

definition once :: "anim \<Rightarrow> bool" where
  "once s = (distinct (marks s) \<and> (\<forall>el \<in> set (marks s). is_visible s el))"

definition grows :: "anim \<Rightarrow> anim \<Rightarrow> bool" where
  "grows s s' = ((once s \<longrightarrow> once s') \<and> (\<forall>el. is_visible s el \<longrightarrow> is_visible s' el))"

lemma grows_refl: "grows s s"
  by (simp add: grows_def)

lemma grows_trans: "grows s s' \<Longrightarrow> grows s' s'' \<Longrightarrow> grows s s''"
  by (simp add: grows_def)

lemma grows_same:
  "classes s' = classes s \<Longrightarrow> marks s' = marks s \<Longrightarrow> grows s s'"
  by (simp add: grows_def once_def is_visible_def)

lemma grows_classList_add: "grows s (classList_add c el s)"
proof (cases "c \<in> set (classes s el)")
  case True
  then show ?thesis by (simp add: classList_add_def grows_refl)
next
  case False
  show ?thesis
  proof (cases "c = ''visible''")
    case True
    with False have "el \<notin> set (marks s)" if "once s"
      using that by (auto simp add: once_def is_visible_def)
    with False True show ?thesis
      by (auto simp add: grows_def once_def is_visible_def classList_add_def)
  next
    case notvis: False
    with False show ?thesis
      by (auto simp add: grows_def once_def is_visible_def classList_add_def)
  qed
qed

lemma grows_fold:
  assumes "\<And>x t. grows t (f x t)"
  shows "grows s (fold f xs s)"
proof (induction xs arbitrary: s)
  case Nil
  show ?case by (simp add: grows_refl)
next
  case (Cons x xs)
  have "grows s (f x s)" by (rule assms)
  moreover have "grows (f x s) (fold f xs (f x s))" by (rule Cons.IH)
  ultimately show ?case
    by (simp add: grows_trans)
qed

lemma grows_check_one: "grows s (check_one g p s)"
  by (cases p) (simp add: check_one_def grows_same grows_refl)

lemma grows_header_entry: "grows s (header_entry p s)"
proof (cases p)
  case (Pair target isIntersecting)
  have "grows (classList_add ''visible'' target s)
          ((classList_add ''visible'' target s)
             \<lparr>header_observed := removeAll target (header_observed s)\<rparr>)"
    by (rule grows_same) simp_all
  with grows_classList_add [of s "''visible''" target]
  have "grows s ((classList_add ''visible'' target s)
             \<lparr>header_observed := removeAll target (header_observed s)\<rparr>)"
    by (rule grows_trans)
  with Pair show ?thesis
    by (simp add: header_entry_def grows_refl)
qed

lemma grows_item_entry: "grows s (item_entry p s)"
  by (cases p) (simp add: item_entry_def grows_same grows_refl)

lemma grows_anim_elapse: "grows s (anim_elapse T s)"
proof -
  let ?due = "sort_key fst (filter (\<lambda>p. fst p \<le> T) (visible_timers s))"
  let ?s' = "fold (\<lambda>p. classList_add ''visible'' (snd p)) ?due s"
  have "grows s ?s'"
    by (rule grows_fold) (rule grows_classList_add)
  moreover have "grows ?s' (?s'\<lparr>visible_timers := filter (\<lambda>p. T < fst p) (visible_timers s),
                                anim_now := max (anim_now s) T\<rparr>)"
    by (rule grows_same) simp_all
  ultimately show ?thesis
    unfolding anim_elapse_def by (rule grows_trans)
qed

lemma grows_anim_step: "grows s (anim_step ev s)"
proof (cases ev)
  case (CheckAnimations g)
  have "grows s (fold (check_one g) (animatedElements s) s)"
    by (rule grows_fold) (rule grows_check_one)
  with CheckAnimations show ?thesis by (simp add: checkAnimations_def)
next
  case (HeaderEntries entries)
  have "grows s (fold header_entry entries s)"
    by (rule grows_fold) (rule grows_header_entry)
  with HeaderEntries show ?thesis by simp
next
  case (ItemEntries entries)
  have "grows s (fold item_entry entries s)"
    by (rule grows_fold) (rule grows_item_entry)
  with ItemEntries show ?thesis by simp
next
  case (Elapse T)
  then show ?thesis by (simp add: grows_anim_elapse)
qed

lemma grows_run_anim: "grows s (run_anim evs s)"
  unfolding run_anim_def by (rule grows_fold) (rule grows_anim_step)

lemma distinct_count_le_1: "distinct xs \<Longrightarrow> count_list xs x \<le> 1"
  by (induction xs) (auto simp add: count_list_0_iff)

text \<open>
  C9. Start from a page on which no element has gained the marker yet, and let any
  sequence of viewport checks, observer deliveries and timer expiries happen. For every
  element the token \<open>visible\<close> enters its class list at most once; and an element that has
  the marker at some point of the run has it at every later point.
\<close>

theorem visible_marker_once:
  assumes "marks s = []"
  shows "count_list (marks (run_anim evs s)) el \<le> 1
       \<and> (is_visible (run_anim evs s) el \<longrightarrow> is_visible (run_anim (evs @ evs') s) el)"
proof -
  from assms have "once s"
    by (simp add: once_def)
  with grows_run_anim [of s evs] have "once (run_anim evs s)"
    by (simp add: grows_def)
  then have "distinct (marks (run_anim evs s))"
    by (simp add: once_def)
  then have a: "count_list (marks (run_anim evs s)) el \<le> 1"
    by (rule distinct_count_le_1)
  have "run_anim (evs @ evs') s = run_anim evs' (run_anim evs s)"
    by (simp add: run_anim_def)
  with grows_run_anim [of "run_anim evs s" evs']
  have b: "is_visible (run_anim evs s) el \<longrightarrow> is_visible (run_anim (evs @ evs') s) el"
    by (simp add: grows_def)
  from a b show ?thesis by simp
qed

definition blank_page :: anim where
  "blank_page =
     \<lparr>classes = (\<lambda>_. []), animatedElements = [], gridItems = [], header_observed = [],
      item_observed = [], visible_timers = [], anim_now = 0, marks = []\<rparr>"

definition small_query :: page_query where
  "small_query =
     \<lparr>section_headers = [0], experience_cards = [1, 2], certification_cards = [],
      contact_icon_links = [], hero_content = None, hero_illustration = None\<rparr>"

definition all_in_view :: geometry where
  "all_in_view =
     \<lparr>innerHeight = 800, clientHeight = 800,
      boundingClientRect = (\<lambda>_. \<lparr>rect_top = 200, rect_bottom = 400\<rparr>)\<rparr>"

lemma small_setup:
  "animatedElements (setupAnimations small_query blank_page) = [(0, 0), (1, 0), (2, 100)]
   \<and> marks (setupAnimations small_query blank_page) = []
   \<and> visible_timers (setupAnimations small_query blank_page) = []
   \<and> anim_now (setupAnimations small_query blank_page) = 0
   \<and> classes (setupAnimations small_query blank_page) 2 = [''scale-in'']"
  by (simp add: setupAnimations_def small_query_def blank_page_def register_all_def
      register_def classList_add_def enumerate_eq_zip upt_rec)

text \<open>
  Two viewport checks before the delay of element 2 is over schedule its callback twice:
  \<open>classList.add('visible')\<close> then runs twice for it, and inserts the token once.
\<close>

lemma two_checks_two_timers:
  "visible_timers (run_anim [CheckAnimations all_in_view, CheckAnimations all_in_view]
                     (setupAnimations small_query blank_page))
   = [(0, 0), (0, 1), (100, 2), (0, 0), (0, 1), (100, 2)]"
  by (simp add: run_anim_def checkAnimations_def check_one_def isInViewport_def
      is_visible_def all_in_view_def small_setup setupAnimations_def small_query_def
      blank_page_def register_all_def register_def classList_add_def enumerate_eq_zip upt_rec)

theorem visible_marker_once_witness:
  "marks (setupAnimations small_query blank_page) = []
   \<and> count_list (marks (run_anim [CheckAnimations all_in_view, CheckAnimations all_in_view,
                                    Elapse 150]
                          (setupAnimations small_query blank_page))) 2 \<le> 1
   \<and> marks (run_anim [CheckAnimations all_in_view, CheckAnimations all_in_view, Elapse 150]
               (setupAnimations small_query blank_page)) = [0, 1, 2]"
  using visible_marker_once
    [of "setupAnimations small_query blank_page"
        "[CheckAnimations all_in_view, CheckAnimations all_in_view, Elapse 150]" 2 "[]"]
  by (simp add: run_anim_def checkAnimations_def check_one_def isInViewport_def
      is_visible_def all_in_view_def anim_elapse_def setupAnimations_def small_query_def
      blank_page_def register_all_def register_def classList_add_def enumerate_eq_zip upt_rec)

end
